theory Spec2Isabelle
  imports Complex_Main
begin

section \<open>The settlement calculator of src/app.py\<close>

text \<open>
  The development embeds the calculation engine of \<^verbatim>\<open>src/app.py\<close>: the helpers
  \<^verbatim>\<open>parse_date\<close>, \<^verbatim>\<open>parse_float\<close>, \<^verbatim>\<open>days_inclusive\<close>, \<^verbatim>\<open>add_months\<close>, and the
  function \<^verbatim>\<open>calculate\<close> with its local function \<^verbatim>\<open>riv_component\<close>.

  Conventions of the embedding.
  \<^item> Python integers are \<open>int\<close>; \<^verbatim>\<open>//\<close> and \<^verbatim>\<open>%\<close> with the positive divisor 12 are
    \<open>div\<close> and \<open>mod\<close> (both round towards minus infinity).
  \<^item> Python floats are idealised as \<open>real\<close>: finite values with exact arithmetic.
    Rounding, overflow to infinity and the values \<^verbatim>\<open>inf\<close> and \<^verbatim>\<open>nan\<close> are outside the
    model.
  \<^item> A \<^verbatim>\<open>datetime.date\<close> is a triple of year, month and day; the constructor checks its
    fields and raises, the raise being the \<open>Inl\<close> branch of a sum.
  \<^item> The builtins \<^verbatim>\<open>float(str)\<close> and \<^verbatim>\<open>int(str)\<close> and the clock \<^verbatim>\<open>date.today()\<close> are
    not part of the source file: they are the fields of a record of type \<open>builtins\<close>
    that every parsing function takes as its first argument.
\<close>

subsection \<open>Exceptions\<close>

datatype py_error = ValueError | OverflowError

subsection \<open>The class \<^verbatim>\<open>datetime.date\<close>\<close>

datatype date = Date (year: int) (month: int) (day: int)

text \<open>The leap year rule and the month lengths of the standard library's calendar.\<close>

definition is_leap :: "int \<Rightarrow> bool" where
  "is_leap y = (y mod 4 = 0 \<and> (y mod 100 \<noteq> 0 \<or> y mod 400 = 0))"

definition days_in_month :: "int \<Rightarrow> int \<Rightarrow> int" where
  "days_in_month y m =
     (if m = 2 \<and> is_leap y then 29
      else [31, 28, 31, 30, 31, 30, 31, 31, 30, 31, 30, 31] ! nat (m - 1))"

definition c_int :: "int \<Rightarrow> bool" where
  "c_int x = (- (2 ^ 31) \<le> x \<and> x < 2 ^ 31)"

text \<open>
  \<^verbatim>\<open>date(y, m, d)\<close>: the arguments must fit a C int (OverflowError otherwise), the year
  must lie in 1..9999, the month in 1..12 and the day in 1..days_in_month (ValueError
  otherwise).
\<close>

definition mk_date :: "int \<Rightarrow> int \<Rightarrow> int \<Rightarrow> py_error + date" where
  "mk_date y m d =
     (if \<not> (c_int y \<and> c_int m \<and> c_int d) then Inl OverflowError
      else if y < 1 \<or> 9999 < y then Inl ValueError
      else if m < 1 \<or> 12 < m then Inl ValueError
      else if d < 1 \<or> days_in_month y m < d then Inl ValueError
      else Inr (Date y m d))"

definition valid_date :: "date \<Rightarrow> bool" where
  "valid_date d =
     (1 \<le> year d \<and> year d \<le> 9999 \<and> 1 \<le> month d \<and> month d \<le> 12 \<and>
      1 \<le> day d \<and> day d \<le> days_in_month (year d) (month d))"

text \<open>Dates compare as the tuples (year, month, day).\<close>

definition date_lt :: "date \<Rightarrow> date \<Rightarrow> bool" where
  "date_lt a b =
     (year a < year b \<or>
      (year a = year b \<and> (month a < month b \<or> (month a = month b \<and> day a < day b))))"

definition date_le :: "date \<Rightarrow> date \<Rightarrow> bool" where
  "date_le a b = (a = b \<or> date_lt a b)"

text \<open>\<^verbatim>\<open>max(a, b)\<close> returns its first argument unless the second is greater.\<close>

definition date_max :: "date \<Rightarrow> date \<Rightarrow> date" where
  "date_max a b = (if date_lt a b then b else a)"

text \<open>
  \<^verbatim>\<open>date.toordinal()\<close>: the day number in the proleptic Gregorian calendar, day 1 being
  1 January of year 1. The difference of two dates is the difference of their ordinals.
\<close>

definition days_before_year :: "int \<Rightarrow> int" where
  "days_before_year y =
     (y - 1) * 365 + (y - 1) div 4 - (y - 1) div 100 + (y - 1) div 400"

definition days_before_month :: "int \<Rightarrow> int \<Rightarrow> int" where
  "days_before_month y m =
     [0, 31, 59, 90, 120, 151, 181, 212, 243, 273, 304, 334] ! nat (m - 1)
       + (if 2 < m \<and> is_leap y then 1 else 0)"

definition toordinal :: "date \<Rightarrow> int" where
  "toordinal d = days_before_year (year d) + days_before_month (year d) (month d) + day d"

definition date_diff_days :: "date \<Rightarrow> date \<Rightarrow> int" where
  "date_diff_days e s = toordinal e - toordinal s"

subsection \<open>Date helpers of the source\<close>

text \<open>\<^verbatim>\<open>days_inclusive(start, end)\<close>; a missing date is \<open>None\<close>.\<close>

definition days_inclusive :: "date option \<Rightarrow> date option \<Rightarrow> int" where
  "days_inclusive start end' =
     (case (start, end') of
        (Some s, Some e) \<Rightarrow> if date_lt e s then 0 else date_diff_days e s + 1
      | _ \<Rightarrow> 0)"

text \<open>
  \<^verbatim>\<open>add_months(d, months)\<close>. The index \<open>m - 1\<close> of the table lies in 0..11, since
  \<open>m\<close> is a remainder modulo 12 plus one. The final call of the constructor can raise.
\<close>

definition add_months :: "date \<Rightarrow> int \<Rightarrow> py_error + date" where
  "add_months d months =
     (let y = year d + (month d - 1 + months) div 12;
          m = (month d - 1 + months) mod 12 + 1;
          dd = min (day d)
                 ([31,
                   if y mod 4 = 0 \<and> (y mod 100 \<noteq> 0 \<or> y mod 400 = 0) then 29 else 28,
                   31, 30, 31, 30, 31, 31, 30, 31, 30, 31] ! nat (m - 1))
      in mk_date y m dd)"

text \<open>
  The local function \<^verbatim>\<open>riv_component\<close> of \<^verbatim>\<open>calculate\<close>. It closes over
  \<^verbatim>\<open>projection_months\<close>, \<^verbatim>\<open>proj_start\<close> and \<^verbatim>\<open>proj_end\<close>, which are its first three
  arguments here.
\<close>

definition riv_component ::
  "int \<Rightarrow> date \<Rightarrow> date \<Rightarrow> 'l \<Rightarrow> date option \<Rightarrow> real \<Rightarrow> 'l \<times> real" where
  "riv_component projection_months proj_start proj_end lbl start_dt annual_revenue =
     (case start_dt of
        None \<Rightarrow> (lbl, 0)
      | Some sd \<Rightarrow>
          if projection_months \<le> 0 then (lbl, 0)
          else if date_lt proj_end sd then (lbl, 0)
          else
            (let active_start = date_max sd proj_start;
                 active_days = days_inclusive (Some active_start) (Some proj_end)
             in if active_days \<le> 0 then (lbl, 0)
                else
                  (let daily_revenue = annual_revenue / 365.25
                   in (lbl, daily_revenue * of_int active_days))))"

subsection \<open>Strings and parsing\<close>

text \<open>
  The builtins the parsing helpers call: \<^verbatim>\<open>float(str)\<close> and \<^verbatim>\<open>int(str)\<close>, with \<open>None\<close>
  for a ValueError, and the clock read by \<^verbatim>\<open>date.today()\<close>.
\<close>

record builtins =
  py_float :: "string \<Rightarrow> real option"
  py_int :: "string \<Rightarrow> int option"
  today :: date

text \<open>\<^verbatim>\<open>str.strip()\<close>, \<^verbatim>\<open>str.replace\<close> on single characters and \<^verbatim>\<open>str.split(sep)\<close>, on
  ASCII strings.\<close>

definition is_space :: "char \<Rightarrow> bool" where
  "is_space c =
     (c \<in> set [CHR 0x09, CHR 0x0A, CHR 0x0B, CHR 0x0C, CHR 0x0D,
                CHR 0x1C, CHR 0x1D, CHR 0x1E, CHR 0x1F, CHR '' ''])"

definition strip :: "string \<Rightarrow> string" where
  "strip s = rev (dropWhile is_space (rev (dropWhile is_space s)))"

definition replace_char :: "char \<Rightarrow> char \<Rightarrow> string \<Rightarrow> string" where
  "replace_char old new s = map (\<lambda>c. if c = old then new else c) s"

fun split_on :: "char \<Rightarrow> string \<Rightarrow> string list" where
  "split_on sep [] = [[]]"
| "split_on sep (c # cs) =
     (if c = sep then [] # split_on sep cs
      else (case split_on sep cs of
              [] \<Rightarrow> [[c]]
            | w # ws \<Rightarrow> (c # w) # ws))"

text \<open>
  \<^verbatim>\<open>parse_date(s, default)\<close>. Every exception of the body (a part that is no integer, fewer
  than three parts, a date out of range) is caught and gives the default. Every call
  in the source passes a date as the default, so the result is a date.
\<close>

definition parse_date :: "builtins \<Rightarrow> string option \<Rightarrow> date \<Rightarrow> date" where
  "parse_date B s dflt =
     (case s of
        None \<Rightarrow> dflt
      | Some str \<Rightarrow>
          if str = [] then dflt
          else
            (case those (map (py_int B) (split_on CHR ''-'' str)) of
               None \<Rightarrow> dflt
             | Some parts \<Rightarrow>
                 (case parts of
                    y # m # d # rest \<Rightarrow> (case mk_date y m d of Inl e \<Rightarrow> dflt | Inr dt \<Rightarrow> dt)
                  | _ \<Rightarrow> dflt)))"

text \<open>\<^verbatim>\<open>parse_float(s, dflt)\<close>.\<close>

definition parse_float :: "builtins \<Rightarrow> string option \<Rightarrow> real \<Rightarrow> real" where
  "parse_float B s dflt =
     (case s of
        None \<Rightarrow> dflt
      | Some str \<Rightarrow>
          if strip str = [] then dflt
          else
            (case py_float B (strip (replace_char CHR '','' CHR ''.'' str)) of
               None \<Rightarrow> dflt
             | Some x \<Rightarrow> x))"

text \<open>\<^verbatim>\<open>int(x)\<close> of a float truncates towards zero.\<close>

definition int_of_float :: "real \<Rightarrow> int" where
  "int_of_float x = (if 0 \<le> x then \<lfloor>x\<rfloor> else \<lceil>x\<rceil>)"

text \<open>\<^verbatim>\<open>params.get(key, default)\<close> with a string default; \<^verbatim>\<open>params.get(key)\<close> is the map
  itself.\<close>

definition dict_get :: "(string \<rightharpoonup> string) \<Rightarrow> string \<Rightarrow> string \<Rightarrow> string option" where
  "dict_get params k dflt = (case params k of None \<Rightarrow> Some dflt | Some v \<Rightarrow> Some v)"

subsection \<open>The calculator\<close>

text \<open>
  The local variables that \<^verbatim>\<open>calculate\<close> reads from its parameter mapping (lines
  51 to 82). \<^verbatim>\<open>share_pct\<close> is the fraction, already divided by 100. A date read by
  \<^verbatim>\<open>parse_date\<close> with a date as default is a date; \<^verbatim>\<open>legal_fee_date\<close>, which the source
  tests for \<^verbatim>\<open>None\<close> wherever it uses it, is kept as an option.
\<close>

record inputs =
  share_pct :: real
  calc_start :: date
  join_date :: date
  projection_start :: date
  projection_months :: int
  director_start :: date
  past_cash_total :: real
  portal_val :: real
  finance_val :: real
  website_val :: real
  monthly_ops :: real
  legal_fee :: real
  legal_fee_date :: "date option"
  director_salary_year :: real
  bootcamp_start :: date
  bootcamp_per_year :: real
  bootcamp_amount :: real
  coaching_start :: date
  coaching_per_year :: real
  coaching_amount :: real
  llm_start :: date
  llm_clients :: real
  llm_monthly :: real

text \<open>
  The keys of the component dictionaries are formatted strings; a key is modelled by
  the literal text it starts with (the constructor) and the values formatted into it.
  Keys built from different literals differ, so each dictionary literal of the source
  has as many entries as it lists, in that order.
\<close>

datatype label =
    PastCash
  | AssetsValuation
  | OpsFromTo date date
  | DirectorFromTo date date
  | LegalPast
  | OpsMonths int
  | DirectorMonths int
  | LegalProjection
  | Bootcamps real date
  | Sessions real date
  | LlmSubscriptions real real date

text \<open>
  The returned dictionary, flattened: a field is named by its path. The echoed inputs
  are an \<open>inputs\<close> record whose \<open>share_pct\<close> is the percentage again; an ISO date
  string is the date it prints.
\<close>

record result =
  echo :: inputs
  past_components :: "(label \<times> real) list"
  past_company_total :: real
  past_friend_total :: real
  proj_components :: "(label \<times> real) list"
  proj_company_total :: real
  proj_friend_total :: real
  proj_friend_avg_month :: real
  window_start :: date
  window_end :: date
  riv_components :: "(label \<times> real) list"
  riv_company_total :: real
  riv_friend_total :: real
  friend_due_to_join :: real
  friend_future_key :: int
  friend_future :: real
  friend_total_all :: real
  friend_riv_projection :: real
  friend_net_after_riv :: real

text \<open>
  \<^verbatim>\<open>calculate\<close> is embedded in two parts, composed below: the reading of the parameters
  (lines 51 to 82) and the computation on the values read (lines 84 to 226).
\<close>

definition calculate_inputs :: "builtins \<Rightarrow> (string \<rightharpoonup> string) \<Rightarrow> inputs" where
  "calculate_inputs B params =
     (let projection_start' = parse_date B (params ''projection_start'') (Date 2026 1 1)
      in
      \<lparr> share_pct = parse_float B (dict_get params ''share_pct'' ''40'') 0 / 100,
        calc_start = parse_date B (params ''calc_start'') (Date 2024 9 1),
        join_date = parse_date B (params ''join_date'') (today B),
        projection_start = projection_start',
        projection_months =
          int_of_float (parse_float B (dict_get params ''projection_months'' ''24'') 24),
        director_start = parse_date B (params ''director_start'') (Date 2025 1 1),
        past_cash_total = parse_float B (params ''past_cash_total'') 0,
        portal_val = parse_float B (params ''portal_val'') 0,
        finance_val = parse_float B (params ''finance_val'') 0,
        website_val = parse_float B (params ''website_val'') 0,
        monthly_ops = parse_float B (params ''monthly_ops'') 0,
        legal_fee = parse_float B (params ''legal_fee'') 0,
        legal_fee_date = Some (parse_date B (params ''legal_fee_date'') (Date 2026 1 1)),
        director_salary_year = parse_float B (params ''director_salary_year'') 56000,
        bootcamp_start = parse_date B (params ''riv_bootcamp_start'') projection_start',
        bootcamp_per_year = parse_float B (params ''riv_bootcamp_per_year'') 4,
        bootcamp_amount = parse_float B (params ''riv_bootcamp_amount'') 7000,
        coaching_start = parse_date B (params ''riv_coaching_start'') projection_start',
        coaching_per_year = parse_float B (params ''riv_coaching_per_year'') 12,
        coaching_amount = parse_float B (params ''riv_coaching_amount'') 900,
        llm_start = parse_date B (params ''riv_llm_start'') projection_start',
        llm_clients = parse_float B (params ''riv_llm_clients'') 1,
        llm_monthly = parse_float B (params ''riv_llm_monthly'') 300 \<rparr>)"

text \<open>\<^verbatim>\<open>sum(d.values())\<close>: Python adds the values from the left, starting at 0.\<close>

definition sum_values :: "('k \<times> real) list \<Rightarrow> real" where
  "sum_values kvs = foldl (+) 0 (map snd kvs)"

text \<open>
  Lines 84 to 226: the computation on the values read. The call of \<^verbatim>\<open>add_months\<close> on
  line 109 is the one place that can raise; its exception leaves \<^verbatim>\<open>calculate\<close>.
\<close>

definition calculate_body :: "inputs \<Rightarrow> py_error + result" where
  "calculate_body i =
     (let past_period_days = days_inclusive (Some (calc_start i)) (Some (join_date i));
          per_day_ops = monthly_ops i * 12 / 365.25;
          past_ops_cost = per_day_ops * of_int past_period_days;
          director_days_past =
            days_inclusive (Some (date_max (director_start i) (calc_start i)))
              (Some (join_date i));
          per_day_director = director_salary_year i / 365.25;
          past_director_cost = per_day_director * of_int director_days_past;
          past_legal =
            (case legal_fee_date i of
               Some lfd \<Rightarrow> if date_le lfd (join_date i) then legal_fee i else 0
             | None \<Rightarrow> 0);
          assets_total = portal_val i + finance_val i + website_val i;
          past_total_company =
            past_cash_total i + assets_total + past_ops_cost + past_director_cost + past_legal;
          past_total_friend = past_total_company * share_pct i;
          proj_start = projection_start i
      in case add_months proj_start (projection_months i) of
           Inl e \<Rightarrow> Inl e
         | Inr proj_end \<Rightarrow>
            (let proj_ops_cost = monthly_ops i * of_int (projection_months i);
                 proj_director_cost =
                   director_salary_year i * (of_int (projection_months i) / 12);
                 proj_legal =
                   (case legal_fee_date i of
                      Some lfd \<Rightarrow>
                        if date_le proj_start lfd \<and> date_le lfd proj_end then legal_fee i else 0
                    | None \<Rightarrow> 0);
                 proj_total_company = proj_ops_cost + proj_director_cost + proj_legal;
                 proj_total_friend = proj_total_company * share_pct i;
                 proj_avg_month_friend =
                   (if 0 < projection_months i
                    then proj_total_friend / of_int (projection_months i) else 0);
                 past_comps =
                   [(PastCash, past_cash_total i),
                    (AssetsValuation, assets_total),
                    (OpsFromTo (calc_start i) (join_date i), past_ops_cost),
                    (DirectorFromTo (date_max (director_start i) (calc_start i)) (join_date i),
                       past_director_cost),
                    (LegalPast, past_legal)];
                 proj_comps =
                   [(OpsMonths (projection_months i), proj_ops_cost),
                    (DirectorMonths (projection_months i), proj_director_cost),
                    (LegalProjection, proj_legal)];
                 riv = riv_component (projection_months i) proj_start proj_end;
                 bootcamp_label = Bootcamps (bootcamp_per_year i) (bootcamp_start i);
                 coaching_label = Sessions (coaching_per_year i) (coaching_start i);
                 llm_label = LlmSubscriptions (llm_clients i) (llm_monthly i) (llm_start i);
                 bootcamp_revenue =
                   riv bootcamp_label (Some (bootcamp_start i))
                     (bootcamp_per_year i * bootcamp_amount i);
                 coaching_revenue =
                   riv coaching_label (Some (coaching_start i))
                     (coaching_per_year i * coaching_amount i);
                 llm_revenue =
                   riv llm_label (Some (llm_start i)) (llm_clients i * llm_monthly i * 12);
                 riv_comps =
                   [(fst bootcamp_revenue, snd bootcamp_revenue),
                    (fst coaching_revenue, snd coaching_revenue),
                    (fst llm_revenue, snd llm_revenue)];
                 riv_total_company = sum_values riv_comps;
                 riv_total_friend = riv_total_company * share_pct i
             in Inr
               \<lparr> echo = i\<lparr>share_pct := share_pct i * 100\<rparr>,
                 past_components = past_comps,
                 past_company_total = past_total_company,
                 past_friend_total = past_total_friend,
                 proj_components = proj_comps,
                 proj_company_total = proj_total_company,
                 proj_friend_total = proj_total_friend,
                 proj_friend_avg_month = proj_avg_month_friend,
                 window_start = proj_start,
                 window_end = proj_end,
                 riv_components = riv_comps,
                 riv_company_total = riv_total_company,
                 riv_friend_total = riv_total_friend,
                 friend_due_to_join = past_total_friend,
                 friend_future_key = projection_months i,
                 friend_future = proj_total_friend,
                 friend_total_all = past_total_friend + proj_total_friend,
                 friend_riv_projection = riv_total_friend,
                 friend_net_after_riv =
                   past_total_friend + proj_total_friend - riv_total_friend \<rparr>))"

text \<open>\<^verbatim>\<open>calculate(params)\<close>, run with the builtins \<open>B\<close>.\<close>

definition calculate :: "builtins \<Rightarrow> (string \<rightharpoonup> string) \<Rightarrow> py_error + result" where
  "calculate B params = calculate_body (calculate_inputs B params)"

subsection \<open>A concrete instance of the builtins\<close>

text \<open>
  To run the calculator on concrete parameter strings, the builtins are instantiated
  with readers of plain decimal literals: an optional sign and decimal digits for
  \<^verbatim>\<open>int\<close>, and in addition an optional fractional part for \<^verbatim>\<open>float\<close>. On the strings
  they accept they return the value Python returns (for \<^verbatim>\<open>float\<close>, before rounding);
  Python accepts more strings (surrounding blanks, underscores, exponents). The general
  theorems below hold for every instance of the builtins.
\<close>

definition digit_of :: "char \<Rightarrow> nat option" where
  "digit_of c = map_of (zip ''0123456789'' [0, 1, 2, 3, 4, 5, 6, 7, 8, 9]) c"

fun digits_val :: "nat \<Rightarrow> string \<Rightarrow> nat option" where
  "digits_val acc [] = Some acc"
| "digits_val acc (c # cs) =
     (case digit_of c of None \<Rightarrow> None | Some v \<Rightarrow> digits_val (10 * acc + v) cs)"

definition dec_nat :: "string \<Rightarrow> nat option" where
  "dec_nat s = (if s = [] then None else digits_val 0 s)"

definition dec_int :: "string \<Rightarrow> int option" where
  "dec_int s =
     (case s of
        [] \<Rightarrow> None
      | c # r \<Rightarrow>
          if c = CHR ''-'' then map_option (\<lambda>n. - int n) (dec_nat r)
          else if c = CHR ''+'' then map_option int (dec_nat r)
          else map_option int (dec_nat s))"

definition dec_ufloat :: "string \<Rightarrow> real option" where
  "dec_ufloat s =
     (case split_on CHR ''.'' s of
        [ip] \<Rightarrow> map_option real (dec_nat ip)
      | [ip, fp] \<Rightarrow>
          if ip = [] \<and> fp = [] then None
          else
            (case (digits_val 0 ip, digits_val 0 fp) of
               (Some a, Some b) \<Rightarrow> Some (real a + real b / 10 ^ length fp)
             | _ \<Rightarrow> None)
      | _ \<Rightarrow> None)"

definition dec_float :: "string \<Rightarrow> real option" where
  "dec_float s =
     (case s of
        [] \<Rightarrow> None
      | c # r \<Rightarrow>
          if c = CHR ''-'' then map_option uminus (dec_ufloat r)
          else if c = CHR ''+'' then dec_ufloat r
          else dec_ufloat s)"

definition run_on :: "date \<Rightarrow> builtins" where
  "run_on d = \<lparr> py_float = dec_float, py_int = dec_int, today = d \<rparr>"

section \<open>Properties of the calendar\<close>

text \<open>
  The ordinal of a date grows strictly with the date, on dates the constructor
  accepts. The day counts of the calculator rest on this.
\<close>

lemma month_cases:
  "1 \<le> m \<Longrightarrow> m \<le> 12 \<Longrightarrow>
   m = 1 \<or> m = 2 \<or> m = 3 \<or> m = 4 \<or> m = 5 \<or> m = 6 \<or> m = 7 \<or> m = 8 \<or> m = 9 \<or> m = 10 \<or> m = 11 \<or> m = (12::int)"
  by arith

lemma days_in_month_bounds:
  assumes "1 \<le> m" "m \<le> 12"
  shows "28 \<le> days_in_month y m \<and> days_in_month y m \<le> 31"
  using month_cases [OF assms] by (auto simp: days_in_month_def)

lemma days_before_month_step:
  assumes "1 \<le> m" "m < 12"
  shows "days_before_month y (m + 1) = days_before_month y m + days_in_month y m"
proof -
  from assms have "m = 1 \<or> m = 2 \<or> m = 3 \<or> m = 4 \<or> m = 5 \<or> m = 6 \<or> m = 7 \<or> m = 8 \<or> m = 9 \<or> m = 10 \<or> m = 11"
    by arith
  then show ?thesis
    by (auto simp: days_before_month_def days_in_month_def)
qed

lemma days_before_month_december:
  "days_before_month y 12 + days_in_month y 12 = 365 + (if is_leap y then 1 else 0)"
  by (simp add: days_before_month_def days_in_month_def)

lemma days_before_month_mono:
  assumes "1 \<le> m" "m \<le> m'" "m' \<le> 12"
  shows "days_before_month y m \<le> days_before_month y m'"
  using assms(2,1,3)
proof (induction m' rule: int_ge_induct)
  case base
  show ?case by simp
next
  case (step i)
  then have "days_before_month y (i + 1) = days_before_month y i + days_in_month y i"
    by (intro days_before_month_step) auto
  moreover have "28 \<le> days_in_month y i" using step days_in_month_bounds [of i y] by auto
  ultimately show ?case using step by auto
qed

lemma int_div_step:
  fixes y :: int
  assumes "0 < k"
  shows "y div k = (y - 1) div k + (if y mod k = 0 then 1 else 0)"
proof (cases "y mod k = 0")
  case True
  have "y = k * (y div k) + y mod k" by simp
  with True have "y - 1 = k * (y div k - 1) + (k - 1)" by (simp add: algebra_simps)
  then have "(y - 1) div k = y div k - 1"
    using assms by (intro int_div_pos_eq [where r = "k - 1"]) auto
  with True show ?thesis by simp
next
  case False
  have "0 \<le> y mod k" using assms by simp
  with False have lo: "0 \<le> y mod k - 1" by simp
  have "y mod k < k" using assms by simp
  then have hi: "y mod k - 1 < k" by linarith
  have eq: "y - 1 = k * (y div k) + (y mod k - 1)" by simp
  have "(y - 1) div k = y div k"
    using eq lo hi by (rule int_div_pos_eq)
  with False show ?thesis by simp
qed

lemma leap_day_count:
  fixes y :: int
  shows "(if y mod 4 = 0 then 1 else 0) - (if y mod 100 = 0 then 1 else 0)
           + (if y mod 400 = 0 then 1 else 0) = (if is_leap y then 1 else (0::int))"
proof -
  have "y mod 100 = 0 \<Longrightarrow> y mod 4 = 0" using mod_mod_cancel [of 4 100 y] by simp
  moreover have "y mod 400 = 0 \<Longrightarrow> y mod 100 = 0" using mod_mod_cancel [of 100 400 y] by simp
  ultimately show ?thesis
    unfolding is_leap_def
    by (cases "y mod 4 = 0"; cases "y mod 100 = 0"; cases "y mod 400 = 0"; simp)
qed

lemma year_sum_step:
  fixes y a b c a' b' c' p q r :: int
  assumes "a' = a + p" "b' = b + q" "c' = c + r"
  shows "y * 365 + a' - b' + c' = ((y - 1) * 365 + a - b + c) + 365 + (p - q + r)"
  using assms by (simp add: algebra_simps)

lemma days_before_year_step:
  "days_before_year (y + 1) = days_before_year y + 365 + (if is_leap y then 1 else 0)"
proof -
  have "days_before_year (y + 1) = y * 365 + y div 4 - y div 100 + y div 400"
    by (simp only: days_before_year_def add_diff_cancel_right')
  also have "\<dots> = days_before_year y + 365
      + ((if y mod 4 = 0 then 1 else 0) - (if y mod 100 = 0 then 1 else 0)
      + (if y mod 400 = 0 then 1 else 0))"
    unfolding days_before_year_def
    by (rule year_sum_step; rule int_div_step; simp)
  finally show ?thesis by (simp only: leap_day_count)
qed

lemma days_before_year_mono:
  assumes "y \<le> y'"
  shows "days_before_year y \<le> days_before_year y'"
  using assms
proof (induction y' rule: int_ge_induct)
  case base
  show ?case by simp
next
  case (step i)
  then show ?case using days_before_year_step [of i] by (auto split: if_splits)
qed

lemma toordinal_upper:
  assumes "valid_date d"
  shows "toordinal d \<le> days_before_year (year d + 1)"
proof -
  have m: "1 \<le> month d" "month d \<le> 12" using assms by (auto simp: valid_date_def)
  have "days_before_month (year d) (month d) + days_in_month (year d) (month d)
          \<le> days_before_month (year d) 12 + days_in_month (year d) 12"
  proof (cases "month d = 12")
    case True then show ?thesis by simp
  next
    case False
    with m have lt: "month d < 12" by simp
    have "days_before_month (year d) (month d + 1) \<le> days_before_month (year d) 12"
      using m lt by (intro days_before_month_mono) auto
    moreover have "0 \<le> days_in_month (year d) 12" by (simp add: days_in_month_def)
    ultimately show ?thesis using days_before_month_step [OF m(1) lt, of "year d"] by linarith
  qed
  moreover have "day d \<le> days_in_month (year d) (month d)" using assms by (simp add: valid_date_def)
  ultimately show ?thesis
    using days_before_month_december [of "year d"] days_before_year_step [of "year d"]
    by (simp add: toordinal_def split: if_splits)
qed

lemma toordinal_lower:
  assumes "valid_date d"
  shows "days_before_year (year d) < toordinal d"
proof -
  have "0 \<le> days_before_month (year d) (month d)"
    using days_before_month_mono [of 1 "month d" "year d"] assms
    by (auto simp: valid_date_def days_before_month_def)
  moreover have "1 \<le> day d" using assms by (simp add: valid_date_def)
  ultimately show ?thesis by (simp add: toordinal_def)
qed

lemma toordinal_strict_mono:
  assumes "valid_date a" "valid_date b" "date_lt a b"
  shows "toordinal a < toordinal b"
proof -
  consider (y) "year a < year b"
    | (m) "year a = year b" "month a < month b"
    | (d) "year a = year b" "month a = month b" "day a < day b"
    using assms(3) by (auto simp: date_lt_def)
  then show ?thesis
  proof cases
    case y
    then have "days_before_year (year a + 1) \<le> days_before_year (year b)"
      by (intro days_before_year_mono) simp
    then show ?thesis using toordinal_upper [OF assms(1)] toordinal_lower [OF assms(2)] by linarith
  next
    case m
    have ma: "1 \<le> month a" "month b \<le> 12" using assms by (auto simp: valid_date_def)
    with m have lt: "month a < 12" by simp
    have "days_before_month (year a) (month a + 1) \<le> days_before_month (year a) (month b)"
      using ma m by (intro days_before_month_mono) auto
    then have "days_before_month (year a) (month a) + days_in_month (year a) (month a)
                 \<le> days_before_month (year a) (month b)"
      using days_before_month_step [OF ma(1) lt, of "year a"] by simp
    moreover have "day a \<le> days_in_month (year a) (month a)" "1 \<le> day b"
      using assms by (auto simp: valid_date_def)
    ultimately show ?thesis using m by (simp add: toordinal_def)
  next
    case d
    then show ?thesis by (simp add: toordinal_def)
  qed
qed

lemma date_lt_irrefl: "\<not> date_lt d d"
  by (simp add: date_lt_def)

lemma date_lt_trans: "date_lt a b \<Longrightarrow> date_lt b c \<Longrightarrow> date_lt a c"
  by (auto simp: date_lt_def)

lemma date_lt_asym: "date_lt a b \<Longrightarrow> \<not> date_lt b a"
  by (auto simp: date_lt_def)

lemma date_total: "a = b \<or> date_lt a b \<or> date_lt b a"
  by (cases a; cases b) (auto simp: date_lt_def)

lemma date_le_iff_not_lt: "date_le a b \<longleftrightarrow> \<not> date_lt b a"
  using date_total [of a b] date_lt_asym [of a b] date_lt_irrefl [of a]
  by (auto simp: date_le_def)

lemma date_le_lt_trans: "date_le a b \<Longrightarrow> date_lt b c \<Longrightarrow> date_lt a c"
  using date_lt_trans [of a b c] by (auto simp: date_le_def)

lemma date_lt_le_trans: "date_lt a b \<Longrightarrow> date_le b c \<Longrightarrow> date_lt a c"
  using date_lt_trans [of a b c] by (auto simp: date_le_def)

lemma toordinal_mono:
  assumes "valid_date a" "valid_date b" "date_le a b"
  shows "toordinal a \<le> toordinal b"
  using assms toordinal_strict_mono [of a b] by (auto simp: date_le_def)

lemma toordinal_inj:
  assumes "valid_date a" "valid_date b" "toordinal a = toordinal b"
  shows "a = b"
  using date_total [of a b] toordinal_strict_mono [of a b] toordinal_strict_mono [of b a] assms
  by auto

lemma days_inclusive_pos:
  assumes "valid_date s" "valid_date e" "\<not> date_lt e s"
  shows "1 \<le> days_inclusive (Some s) (Some e)"
proof -
  have "date_le s e" using assms(3) by (simp add: date_le_iff_not_lt)
  then have "toordinal s \<le> toordinal e" using assms by (intro toordinal_mono)
  then show ?thesis using assms(3) by (simp add: days_inclusive_def date_diff_days_def)
qed

lemma days_inclusive_nonneg:
  assumes "valid_date s" "valid_date e"
  shows "0 \<le> days_inclusive (Some s) (Some e)"
proof (cases "date_lt e s")
  case True
  then show ?thesis by (simp add: days_inclusive_def)
next
  case False
  then show ?thesis using days_inclusive_pos [OF assms] by simp
qed

lemma date_max_valid:
  "valid_date a \<Longrightarrow> valid_date b \<Longrightarrow> valid_date (date_max a b)"
  by (simp add: date_max_def)

lemma date_max_le: "date_le a b \<Longrightarrow> date_max a b = b"
  by (auto simp: date_max_def date_le_def)

text \<open>Every valid date before another valid date has a valid successor, one day later.\<close>

lemma next_day_exists:
  assumes d: "valid_date d" and e: "valid_date e" and lt: "date_lt d e"
  obtains d' where "valid_date d'" "date_lt d d'" "toordinal d' = toordinal d + 1"
proof -
  have md: "1 \<le> month d" "month d \<le> 12" "1 \<le> day d"
    "day d \<le> days_in_month (year d) (month d)" "1 \<le> year d" "year d \<le> 9999"
    using d by (auto simp: valid_date_def)
  consider (day) "day d < days_in_month (year d) (month d)"
    | (month) "day d = days_in_month (year d) (month d)" "month d < 12"
    | (year) "day d = days_in_month (year d) (month d)" "month d = 12"
    using md by linarith
  then show ?thesis
  proof cases
    case day
    let ?n = "Date (year d) (month d) (day d + 1)"
    have "valid_date ?n" using md day by (simp add: valid_date_def)
    moreover have "date_lt d ?n" by (simp add: date_lt_def)
    moreover have "toordinal ?n = toordinal d + 1" by (simp add: toordinal_def)
    ultimately show ?thesis by (rule that)
  next
    case month
    let ?n = "Date (year d) (month d + 1) 1"
    have "28 \<le> days_in_month (year d) (month d + 1)"
      using days_in_month_bounds [of "month d + 1" "year d"] md month by simp
    then have "valid_date ?n" using md month by (simp add: valid_date_def)
    moreover have "date_lt d ?n" by (simp add: date_lt_def)
    moreover have "toordinal ?n = toordinal d + 1"
      using days_before_month_step [OF md(1) month(2), of "year d"] month(1)
      by (simp add: toordinal_def)
    ultimately show ?thesis by (rule that)
  next
    case year
    let ?n = "Date (year d + 1) 1 1"
    have "day e \<le> 31" "month e \<le> 12" "year e \<le> 9999"
      using e days_in_month_bounds [of "month e" "year e"] by (auto simp: valid_date_def)
    moreover have "day d = 31" using year by (simp add: days_in_month_def)
    ultimately have "year d < year e" using lt year(2) by (auto simp: date_lt_def)
    with \<open>year e \<le> 9999\<close> have "valid_date ?n"
      using md by (simp add: valid_date_def days_in_month_def)
    moreover have "date_lt d ?n" by (simp add: date_lt_def)
    moreover have "toordinal ?n = toordinal d + 1"
      using days_before_month_december [of "year d"] days_before_year_step [of "year d"] year
      by (simp add: toordinal_def days_before_month_def)
    ultimately show ?thesis by (rule that)
  qed
qed

lemma ordinal_reached:
  assumes s: "valid_date s" and e: "valid_date e"
  shows "toordinal s \<le> k \<Longrightarrow> k \<le> toordinal e \<Longrightarrow>
         \<exists>d. valid_date d \<and> date_le s d \<and> date_le d e \<and> toordinal d = k"
proof (induction k rule: int_ge_induct)
  case base
  have "\<not> date_lt e s"
    using base toordinal_strict_mono [OF e s] by auto
  then have "date_le s e" by (simp add: date_le_iff_not_lt)
  then show ?case using s by (auto simp: date_le_def)
next
  case (step i)
  then obtain d where d: "valid_date d" "date_le s d" "date_le d e" "toordinal d = i"
    by auto
  have "d \<noteq> e" using d(4) step.prems by auto
  with d(3) have lt: "date_lt d e" by (simp add: date_le_def)
  obtain n where n: "valid_date n" "date_lt d n" "toordinal n = toordinal d + 1"
    using next_day_exists [OF d(1) e lt] by blast
  have "\<not> date_lt e n"
    using toordinal_strict_mono [OF e n(1)] n(3) d(4) step.prems by auto
  then have "date_le n e" by (simp add: date_le_iff_not_lt)
  moreover have "date_le s n"
    using d(2) n(2) date_lt_trans [of s d n] by (auto simp: date_le_def)
  ultimately show ?case using n d(4) by auto
qed

lemma card_dates_between:
  assumes s: "valid_date s" and e: "valid_date e" and le: "\<not> date_lt e s"
  shows "int (card {d. valid_date d \<and> date_le s d \<and> date_le d e}) = toordinal e - toordinal s + 1"
proof -
  let ?S = "{d. valid_date d \<and> date_le s d \<and> date_le d e}"
  have "date_le s e" using le by (simp add: date_le_iff_not_lt)
  then have ord: "toordinal s \<le> toordinal e" using s e by (intro toordinal_mono)
  have inj: "inj_on toordinal ?S"
    by (rule inj_onI) (auto intro: toordinal_inj)
  have "toordinal ` ?S = {toordinal s..toordinal e}"
  proof (intro equalityI subsetI)
    fix k assume "k \<in> toordinal ` ?S"
    then show "k \<in> {toordinal s..toordinal e}"
      using s e by (auto intro: toordinal_mono)
  next
    fix k assume "k \<in> {toordinal s..toordinal e}"
    then have "toordinal s \<le> k" "k \<le> toordinal e" by auto
    from ordinal_reached [OF s e this] show "k \<in> toordinal ` ?S" by auto
  qed
  then have "card ?S = card {toordinal s..toordinal e}"
    using card_image [OF inj] by simp
  then show ?thesis using ord by simp
qed

text \<open>
  The table of month lengths written out in \<^verbatim>\<open>add_months\<close> is the calendar's, and the
  constructor accepts exactly the valid triples.
\<close>

lemma month_table_eq:
  assumes "1 \<le> m" "m \<le> 12"
  shows "[31, if y mod 4 = 0 \<and> (y mod 100 \<noteq> 0 \<or> y mod 400 = 0) then 29 else 28,
          31, 30, 31, 30, 31, 31, 30, 31, 30, 31] ! nat (m - 1) = days_in_month y m"
  using month_cases [OF assms] by (auto simp: days_in_month_def is_leap_def)

lemma target_month_range:
  fixes x :: int
  shows "1 \<le> x mod 12 + 1" "x mod 12 + 1 \<le> 12"
  using pos_mod_sign [of 12 x] pos_mod_bound [of 12 x] by simp_all

lemma twelve_months_later:
  fixes m :: int
  assumes "1 \<le> m" "m \<le> 12"
  shows "(m - 1 + 12) div 12 = 1" "(m - 1 + 12) mod 12 = m - 1"
proof -
  have "(m - 1 + 12) div 12 = (m - 1) div 12 + 1" by (rule div_add_self2) simp
  moreover have "(m - 1) div 12 = 0" using assms by (intro div_pos_pos_trivial) simp_all
  ultimately show "(m - 1 + 12) div 12 = 1" by simp
  have "(m - 1 + 12) mod 12 = (m - 1) mod 12" by (rule mod_add_self2)
  moreover have "(m - 1) mod 12 = m - 1" using assms by (intro mod_pos_pos_trivial) simp_all
  ultimately show "(m - 1 + 12) mod 12 = m - 1" by simp
qed

lemma add_months_eq:
  "add_months d n =
     mk_date (year d + (month d - 1 + n) div 12) ((month d - 1 + n) mod 12 + 1)
       (min (day d)
          (days_in_month (year d + (month d - 1 + n) div 12) ((month d - 1 + n) mod 12 + 1)))"
  unfolding add_months_def Let_def
  by (simp only: month_table_eq [OF target_month_range])

lemma mk_date_valid:
  assumes "valid_date (Date y m d)"
  shows "mk_date y m d = Inr (Date y m d)"
proof -
  have b: "1 \<le> y" "y \<le> 9999" "1 \<le> m" "m \<le> 12" "1 \<le> d" "d \<le> days_in_month y m"
    using assms by (simp_all add: valid_date_def)
  then have "d \<le> 31" using days_in_month_bounds [of m y] by simp
  with b have "c_int y" "c_int m" "c_int d" by (simp_all add: c_int_def)
  with b show ?thesis by (simp add: mk_date_def)
qed

lemma mk_date_Inr:
  assumes "mk_date y m d = Inr dt"
  shows "dt = Date y m d \<and> valid_date dt"
  using assms by (auto simp: mk_date_def valid_date_def split: if_splits)

lemma mk_date_year_out:
  assumes "y < 1 \<or> 9999 < y"
  shows "mk_date y m d = Inl ValueError \<or> mk_date y m d = Inl OverflowError"
  using assms by (auto simp: mk_date_def)

lemma add_months_returns:
  assumes "valid_date d"
    and "1 \<le> year d + (month d - 1 + n) div 12"
    and "year d + (month d - 1 + n) div 12 \<le> 9999"
  shows "\<exists>e. add_months d n = Inr e"
proof -
  let ?y = "year d + (month d - 1 + n) div 12"
  let ?m = "(month d - 1 + n) mod 12 + 1"
  have m: "1 \<le> ?m" "?m \<le> 12" by (rule target_month_range)+
  have "1 \<le> day d" using assms(1) by (simp add: valid_date_def)
  moreover have "28 \<le> days_in_month ?y ?m" using days_in_month_bounds [OF m] by simp
  ultimately have "1 \<le> min (day d) (days_in_month ?y ?m)" by simp
  then have "valid_date (Date ?y ?m (min (day d) (days_in_month ?y ?m)))"
    using m assms(2,3) by (simp add: valid_date_def)
  then show ?thesis using mk_date_valid by (simp add: add_months_eq)
qed





section \<open>What the calculator reads and returns\<close>


lemma calculate_body_returns:
  assumes "add_months (projection_start i) (projection_months i) = Inr pe"
  shows "\<exists>r. calculate_body i = Inr r \<and> window_end r = pe"
  using assms by (simp add: calculate_body_def Let_def)

lemma calculate_body_window:
  assumes "calculate_body i = Inr r"
  shows "add_months (projection_start i) (projection_months i) = Inr (window_end r)"
    and "window_start r = projection_start i"
  using assms by (auto simp: calculate_body_def Let_def split: sum.splits)

lemma calculate_body_past:
  assumes "calculate_body i = Inr r"
  shows "past_components r =
           [(PastCash, past_cash_total i),
            (AssetsValuation, portal_val i + finance_val i + website_val i),
            (OpsFromTo (calc_start i) (join_date i),
               monthly_ops i * 12 / 365.25
                 * of_int (days_inclusive (Some (calc_start i)) (Some (join_date i)))),
            (DirectorFromTo (date_max (director_start i) (calc_start i)) (join_date i),
               director_salary_year i / 365.25
                 * of_int (days_inclusive (Some (date_max (director_start i) (calc_start i)))
                     (Some (join_date i)))),
            (LegalPast,
               case legal_fee_date i of
                 Some lfd \<Rightarrow> if date_le lfd (join_date i) then legal_fee i else 0
               | None \<Rightarrow> 0)]"
    and "past_company_total r = sum_values (past_components r)"
    and "past_friend_total r = past_company_total r * share_pct i"
    and "friend_due_to_join r = past_friend_total r"
  using assms by (auto simp: calculate_body_def Let_def sum_values_def split: sum.splits option.splits)

lemma calculate_body_proj:
  assumes "calculate_body i = Inr r"
  shows "proj_components r =
           [(OpsMonths (projection_months i), monthly_ops i * of_int (projection_months i)),
            (DirectorMonths (projection_months i),
               director_salary_year i * (of_int (projection_months i) / 12)),
            (LegalProjection,
               case legal_fee_date i of
                 Some lfd \<Rightarrow>
                   if date_le (projection_start i) lfd \<and> date_le lfd (window_end r)
                   then legal_fee i else 0
               | None \<Rightarrow> 0)]"
    and "proj_company_total r = sum_values (proj_components r)"
    and "proj_friend_total r = proj_company_total r * share_pct i"
    and "proj_friend_avg_month r =
           (if 0 < projection_months i
            then proj_friend_total r / of_int (projection_months i) else 0)"
    and "friend_future r = proj_friend_total r"
    and "friend_future_key r = projection_months i"
  using assms by (auto simp: calculate_body_def Let_def sum_values_def split: sum.splits option.splits)

lemma calculate_body_riv:
  assumes "calculate_body i = Inr r"
  shows "riv_components r =
           [riv_component (projection_months i) (projection_start i) (window_end r)
              (Bootcamps (bootcamp_per_year i) (bootcamp_start i)) (Some (bootcamp_start i))
              (bootcamp_per_year i * bootcamp_amount i),
            riv_component (projection_months i) (projection_start i) (window_end r)
              (Sessions (coaching_per_year i) (coaching_start i)) (Some (coaching_start i))
              (coaching_per_year i * coaching_amount i),
            riv_component (projection_months i) (projection_start i) (window_end r)
              (LlmSubscriptions (llm_clients i) (llm_monthly i) (llm_start i))
              (Some (llm_start i)) (llm_clients i * llm_monthly i * 12)]"
    and "riv_company_total r = sum_values (riv_components r)"
    and "riv_friend_total r = riv_company_total r * share_pct i"
    and "friend_riv_projection r = riv_friend_total r"
  using assms by (auto simp: calculate_body_def Let_def sum_values_def split: sum.splits option.splits)

lemma calculate_body_summary:
  assumes "calculate_body i = Inr r"
  shows "friend_total_all r = past_friend_total r + proj_friend_total r"
    and "friend_net_after_riv r = friend_total_all r - friend_riv_projection r"
    and "echo r = i\<lparr>share_pct := share_pct i * 100\<rparr>"
  using assms by (auto simp: calculate_body_def Let_def split: sum.splits)





text \<open>
  What \<^verbatim>\<open>calculate\<close> reads from its parameters. The parsing helpers read the
  builtins \<^verbatim>\<open>int\<close> and \<^verbatim>\<open>float\<close> only, never the clock, and a date read with a valid
  default is valid.
\<close>

lemma parse_date_valid:
  assumes "valid_date dflt"
  shows "valid_date (parse_date B s dflt)"
  using assms
  by (auto simp: parse_date_def dest: mk_date_Inr split: option.splits list.splits sum.splits)



lemma calculate_inputs_numbers:
  "share_pct (calculate_inputs B params) =
     parse_float B (dict_get params ''share_pct'' ''40'') 0 / 100"
  "projection_months (calculate_inputs B params) =
     int_of_float (parse_float B (dict_get params ''projection_months'' ''24'') 24)"
  "past_cash_total (calculate_inputs B params) = parse_float B (params ''past_cash_total'') 0"
  "portal_val (calculate_inputs B params) = parse_float B (params ''portal_val'') 0"
  "finance_val (calculate_inputs B params) = parse_float B (params ''finance_val'') 0"
  "website_val (calculate_inputs B params) = parse_float B (params ''website_val'') 0"
  "monthly_ops (calculate_inputs B params) = parse_float B (params ''monthly_ops'') 0"
  "legal_fee (calculate_inputs B params) = parse_float B (params ''legal_fee'') 0"
  "director_salary_year (calculate_inputs B params) =
     parse_float B (params ''director_salary_year'') 56000"
  "bootcamp_per_year (calculate_inputs B params) = parse_float B (params ''riv_bootcamp_per_year'') 4"
  "bootcamp_amount (calculate_inputs B params) = parse_float B (params ''riv_bootcamp_amount'') 7000"
  "coaching_per_year (calculate_inputs B params) = parse_float B (params ''riv_coaching_per_year'') 12"
  "coaching_amount (calculate_inputs B params) = parse_float B (params ''riv_coaching_amount'') 900"
  "llm_clients (calculate_inputs B params) = parse_float B (params ''riv_llm_clients'') 1"
  "llm_monthly (calculate_inputs B params) = parse_float B (params ''riv_llm_monthly'') 300"
  by (simp_all add: calculate_inputs_def Let_def)

lemma calculate_inputs_dates:
  "calc_start (calculate_inputs B params) = parse_date B (params ''calc_start'') (Date 2024 9 1)"
  "join_date (calculate_inputs B params) = parse_date B (params ''join_date'') (today B)"
  "projection_start (calculate_inputs B params) =
     parse_date B (params ''projection_start'') (Date 2026 1 1)"
  "director_start (calculate_inputs B params) =
     parse_date B (params ''director_start'') (Date 2025 1 1)"
  "legal_fee_date (calculate_inputs B params) =
     Some (parse_date B (params ''legal_fee_date'') (Date 2026 1 1))"
  "bootcamp_start (calculate_inputs B params) =
     parse_date B (params ''riv_bootcamp_start'') (projection_start (calculate_inputs B params))"
  "coaching_start (calculate_inputs B params) =
     parse_date B (params ''riv_coaching_start'') (projection_start (calculate_inputs B params))"
  "llm_start (calculate_inputs B params) =
     parse_date B (params ''riv_llm_start'') (projection_start (calculate_inputs B params))"
  by (simp_all add: calculate_inputs_def Let_def)

lemma default_dates_valid:
  "valid_date (Date 2024 9 1)" "valid_date (Date 2026 1 1)" "valid_date (Date 2025 1 1)"
  by (simp_all add: valid_date_def days_in_month_def)

lemma calculate_inputs_valid:
  "valid_date (calc_start (calculate_inputs B params))"
  "valid_date (projection_start (calculate_inputs B params))"
  "valid_date (director_start (calculate_inputs B params))"
  "valid_date (bootcamp_start (calculate_inputs B params))"
  "valid_date (coaching_start (calculate_inputs B params))"
  "valid_date (llm_start (calculate_inputs B params))"
  "valid_date (today B) \<Longrightarrow> valid_date (join_date (calculate_inputs B params))"
  by (simp_all add: calculate_inputs_dates parse_date_valid default_dates_valid)


text \<open>When the whole call returns.\<close>

lemma calculate_returns:
  assumes "1 \<le> year (projection_start (calculate_inputs B params))
             + (month (projection_start (calculate_inputs B params)) - 1
                + projection_months (calculate_inputs B params)) div 12"
    and "year (projection_start (calculate_inputs B params))
             + (month (projection_start (calculate_inputs B params)) - 1
                + projection_months (calculate_inputs B params)) div 12 \<le> 9999"
  shows "\<exists>r. calculate B params = Inr r"
proof -
  let ?i = "calculate_inputs B params"
  have "valid_date (projection_start ?i)" by (rule calculate_inputs_valid)
  from add_months_returns [OF this assms]
  obtain pe where "add_months (projection_start ?i) (projection_months ?i) = Inr pe" ..
  from calculate_body_returns [OF this] show ?thesis by (auto simp: calculate_def)
qed


text \<open>
  Running the calculator on concrete parameter strings unfolds the parsing helpers and
  the decimal readers of \<open>run_on\<close>.
\<close>

lemmas run_defs =
  parse_float_def parse_date_def dict_get_def run_on_def strip_def is_space_def
  replace_char_def dec_float_def dec_ufloat_def dec_nat_def dec_int_def digit_of_def
  int_of_float_def




section \<open>The claims\<close>

subsection \<open>C1: attribution of the legal fee\<close>

text \<open>
  C1, amended. Whenever \<^verbatim>\<open>calculate\<close> returns, the legal fee is counted in the past
  totals exactly when \<^verbatim>\<open>legal_fee_date\<close> is at or before \<^verbatim>\<open>join_date\<close>, and in the
  projection totals exactly when \<^verbatim>\<open>legal_fee_date\<close> lies between \<^verbatim>\<open>projection_start\<close> and
  the projection end, both included; each total is the sum of its components. When
  \<^verbatim>\<open>join_date\<close> is before \<^verbatim>\<open>projection_start\<close> the fee is never counted in both, and a fee
  dated strictly between the two is counted in neither. When \<^verbatim>\<open>projection_start\<close> is at or
  before \<^verbatim>\<open>join_date\<close>, a fee dated from \<^verbatim>\<open>projection_start\<close> up to the earlier of
  \<^verbatim>\<open>join_date\<close> and the projection end is counted in both.
\<close>

theorem legal_fee_attribution:
  assumes "calculate B params = Inr r"
  shows "(let i = calculate_inputs B params;
              fee = legal_fee i;
              lfd = parse_date B (params ''legal_fee_date'') (Date 2026 1 1);
              jd = join_date i;
              ps = projection_start i;
              pe = window_end r
          in add_months ps (projection_months i) = Inr pe
           \<and> map_of (past_components r) LegalPast = Some (if date_le lfd jd then fee else 0)
           \<and> map_of (proj_components r) LegalProjection
                = Some (if date_le ps lfd \<and> date_le lfd pe then fee else 0)
           \<and> past_company_total r = sum_values (past_components r)
           \<and> proj_company_total r = sum_values (proj_components r)
           \<and> (date_lt jd ps \<longrightarrow> \<not> (date_le lfd jd \<and> date_le ps lfd \<and> date_le lfd pe))
           \<and> (date_lt jd lfd \<and> date_lt lfd ps \<longrightarrow>
                map_of (past_components r) LegalPast = Some 0
                \<and> map_of (proj_components r) LegalProjection = Some 0)
           \<and> (date_le ps lfd \<and> date_le lfd jd \<and> date_le lfd pe \<longrightarrow>
                map_of (past_components r) LegalPast = Some fee
                \<and> map_of (proj_components r) LegalProjection = Some fee))"
proof -
  let ?i = "calculate_inputs B params"
  let ?lfd = "parse_date B (params ''legal_fee_date'') (Date 2026 1 1)"
  from assms have s: "calculate_body ?i = Inr r" by (simp add: calculate_def)
  have lfd: "legal_fee_date ?i = Some ?lfd" by (simp add: calculate_inputs_dates)
  have past: "map_of (past_components r) LegalPast
                = Some (if date_le ?lfd (join_date ?i) then legal_fee ?i else 0)"
    by (simp add: calculate_body_past(1) [OF s] lfd)
  have proj: "map_of (proj_components r) LegalProjection
                = Some (if date_le (projection_start ?i) ?lfd \<and> date_le ?lfd (window_end r)
                        then legal_fee ?i else 0)"
    by (simp add: calculate_body_proj(1) [OF s] lfd)
  have excl: "\<not> (date_le ?lfd (join_date ?i) \<and> date_le (projection_start ?i) ?lfd
                  \<and> date_le ?lfd (window_end r))"
    if "date_lt (join_date ?i) (projection_start ?i)"
  proof
    assume a: "date_le ?lfd (join_date ?i) \<and> date_le (projection_start ?i) ?lfd
                  \<and> date_le ?lfd (window_end r)"
    then have "date_lt ?lfd (projection_start ?i)" using that date_le_lt_trans by blast
    with a have "date_lt ?lfd ?lfd" using date_lt_le_trans by blast
    then show False by (simp add: date_lt_irrefl)
  qed
  have gap: "map_of (past_components r) LegalPast = Some 0
                \<and> map_of (proj_components r) LegalProjection = Some 0"
    if "date_lt (join_date ?i) ?lfd \<and> date_lt ?lfd (projection_start ?i)"
    using that past proj by (simp add: date_le_iff_not_lt)
  have both: "map_of (past_components r) LegalPast = Some (legal_fee ?i)
                \<and> map_of (proj_components r) LegalProjection = Some (legal_fee ?i)"
    if "date_le (projection_start ?i) ?lfd \<and> date_le ?lfd (join_date ?i)
        \<and> date_le ?lfd (window_end r)"
    using that past proj by simp
  show ?thesis
    unfolding Let_def
    using calculate_body_window(1) [OF s] past proj calculate_body_past(2) [OF s] calculate_body_proj(2) [OF s]
      excl gap both
    by blast
qed

lemma fee_in_gap:
  "projection_start (calculate_inputs (run_on t)
     [''join_date'' \<mapsto> ''2025-12-01'', ''legal_fee'' \<mapsto> ''2500'',
      ''legal_fee_date'' \<mapsto> ''2025-12-15'']) = Date 2026 1 1"
  "projection_months (calculate_inputs (run_on t)
     [''join_date'' \<mapsto> ''2025-12-01'', ''legal_fee'' \<mapsto> ''2500'',
      ''legal_fee_date'' \<mapsto> ''2025-12-15'']) = 24"
  "join_date (calculate_inputs (run_on t)
     [''join_date'' \<mapsto> ''2025-12-01'', ''legal_fee'' \<mapsto> ''2500'',
      ''legal_fee_date'' \<mapsto> ''2025-12-15'']) = Date 2025 12 1"
  "legal_fee (calculate_inputs (run_on t)
     [''join_date'' \<mapsto> ''2025-12-01'', ''legal_fee'' \<mapsto> ''2500'',
      ''legal_fee_date'' \<mapsto> ''2025-12-15'']) = 2500"
  "parse_date (run_on t) (Some ''2025-12-15'') (Date 2026 1 1) = Date 2025 12 15"
  by (simp_all add: calculate_inputs_dates calculate_inputs_numbers run_defs mk_date_def c_int_def
      days_in_month_def)

theorem legal_fee_attribution_witness:
  "\<not> isl (calculate (run_on (Date 2026 11 3))
     [''join_date'' \<mapsto> ''2025-12-01'', ''legal_fee'' \<mapsto> ''2500'',
      ''legal_fee_date'' \<mapsto> ''2025-12-15''])
   \<and> date_lt (Date 2025 12 1) (Date 2025 12 15) \<and> date_lt (Date 2025 12 15) (Date 2026 1 1)
   \<and> map_of (past_components (projr (calculate (run_on (Date 2026 11 3))
     [''join_date'' \<mapsto> ''2025-12-01'', ''legal_fee'' \<mapsto> ''2500'',
      ''legal_fee_date'' \<mapsto> ''2025-12-15'']))) LegalPast = Some 0
   \<and> map_of (proj_components (projr (calculate (run_on (Date 2026 11 3))
     [''join_date'' \<mapsto> ''2025-12-01'', ''legal_fee'' \<mapsto> ''2500'',
      ''legal_fee_date'' \<mapsto> ''2025-12-15'']))) LegalProjection = Some 0"
proof -
  let ?B = "run_on (Date 2026 11 3)"
  let ?p = "[''join_date'' \<mapsto> ''2025-12-01'', ''legal_fee'' \<mapsto> ''2500'',
      ''legal_fee_date'' \<mapsto> ''2025-12-15'']"
  obtain r where r: "calculate ?B ?p = Inr r"
    using calculate_returns [of ?B ?p] by (auto simp: fee_in_gap)
  have o: "date_lt (Date 2025 12 1) (Date 2025 12 15)" "date_lt (Date 2025 12 15) (Date 2026 1 1)"
    by (simp_all add: date_lt_def)
  have "date_lt (join_date (calculate_inputs ?B ?p))
            (parse_date ?B (?p ''legal_fee_date'') (Date 2026 1 1))
        \<and> date_lt (parse_date ?B (?p ''legal_fee_date'') (Date 2026 1 1))
            (projection_start (calculate_inputs ?B ?p)) \<longrightarrow>
        map_of (past_components r) LegalPast = Some 0
        \<and> map_of (proj_components r) LegalProjection = Some 0"
    using legal_fee_attribution [OF r, unfolded Let_def] by blast
  then have "map_of (past_components r) LegalPast = Some 0
        \<and> map_of (proj_components r) LegalProjection = Some 0"
    using o by (simp add: fee_in_gap)
  then show ?thesis using o by (simp add: r)
qed

lemma fee_in_both:
  "projection_start (calculate_inputs (run_on t)
     [''join_date'' \<mapsto> ''2026-06-30'', ''legal_fee'' \<mapsto> ''2500'',
      ''legal_fee_date'' \<mapsto> ''2026-01-15'']) = Date 2026 1 1"
  "projection_months (calculate_inputs (run_on t)
     [''join_date'' \<mapsto> ''2026-06-30'', ''legal_fee'' \<mapsto> ''2500'',
      ''legal_fee_date'' \<mapsto> ''2026-01-15'']) = 24"
  "join_date (calculate_inputs (run_on t)
     [''join_date'' \<mapsto> ''2026-06-30'', ''legal_fee'' \<mapsto> ''2500'',
      ''legal_fee_date'' \<mapsto> ''2026-01-15'']) = Date 2026 6 30"
  "legal_fee (calculate_inputs (run_on t)
     [''join_date'' \<mapsto> ''2026-06-30'', ''legal_fee'' \<mapsto> ''2500'',
      ''legal_fee_date'' \<mapsto> ''2026-01-15'']) = 2500"
  "legal_fee_date (calculate_inputs (run_on t)
     [''join_date'' \<mapsto> ''2026-06-30'', ''legal_fee'' \<mapsto> ''2500'',
      ''legal_fee_date'' \<mapsto> ''2026-01-15'']) = Some (Date 2026 1 15)"
  by (simp_all add: calculate_inputs_dates calculate_inputs_numbers run_defs mk_date_def c_int_def
      days_in_month_def)

text \<open>
  C1 as stated fails on "never in both": with \<^verbatim>\<open>join_date = "2026-06-30"\<close>,
  \<^verbatim>\<open>legal_fee = "2500"\<close>, \<^verbatim>\<open>legal_fee_date = "2026-01-15"\<close> and the default projection
  window from 1 January 2026, the fee of 2500 is a component of the past breakdown and of
  the projection breakdown.
\<close>

theorem legal_fee_both_counterexample:
  "\<not> isl (calculate (run_on (Date 2026 11 3))
     [''join_date'' \<mapsto> ''2026-06-30'', ''legal_fee'' \<mapsto> ''2500'',
      ''legal_fee_date'' \<mapsto> ''2026-01-15''])
   \<and> map_of (past_components (projr (calculate (run_on (Date 2026 11 3))
     [''join_date'' \<mapsto> ''2026-06-30'', ''legal_fee'' \<mapsto> ''2500'',
      ''legal_fee_date'' \<mapsto> ''2026-01-15'']))) LegalPast = Some 2500
   \<and> map_of (proj_components (projr (calculate (run_on (Date 2026 11 3))
     [''join_date'' \<mapsto> ''2026-06-30'', ''legal_fee'' \<mapsto> ''2500'',
      ''legal_fee_date'' \<mapsto> ''2026-01-15'']))) LegalProjection = Some 2500"
proof -
  let ?B = "run_on (Date 2026 11 3)"
  let ?p = "[''join_date'' \<mapsto> ''2026-06-30'', ''legal_fee'' \<mapsto> ''2500'',
      ''legal_fee_date'' \<mapsto> ''2026-01-15'']"
  obtain r where r: "calculate ?B ?p = Inr r"
    using calculate_returns [of ?B ?p] by (auto simp: fee_in_both)
  then have s: "calculate_body (calculate_inputs ?B ?p) = Inr r" by (simp add: calculate_def)
  have w: "window_end r = Date 2028 1 1"
    using calculate_body_window(1) [OF s]
    by (simp add: fee_in_both add_months_def mk_date_def c_int_def days_in_month_def)
  have "map_of (past_components r) LegalPast = Some 2500"
    by (simp add: calculate_body_past(1) [OF s] fee_in_both date_le_def date_lt_def)
  moreover have "map_of (proj_components r) LegalProjection = Some 2500"
    by (simp add: calculate_body_proj(1) [OF s] fee_in_both w date_le_def date_lt_def)
  ultimately show ?thesis by (simp add: r)
qed

subsection \<open>C2: determinism\<close>






subsection \<open>C3: exceptions\<close>







subsection \<open>C4: signs of the totals\<close>





subsection \<open>C5: the inclusive day count\<close>

text \<open>
  C5. \<^verbatim>\<open>days_inclusive(start, end)\<close> returns 0 if either date is missing or the end lies
  before the start; otherwise it returns the difference of the two dates in days plus
  one. For two dates the constructor accepts, that number is the number of calendar
  dates from start to end, both included. In particular the count from a date to
  itself is 1.
\<close>

theorem days_inclusive_spec:
  "days_inclusive None e = 0 \<and> days_inclusive s None = 0
   \<and> (date_lt e' s' \<longrightarrow> days_inclusive (Some s') (Some e') = 0)
   \<and> (\<not> date_lt e' s' \<longrightarrow>
        days_inclusive (Some s') (Some e') = date_diff_days e' s' + 1)
   \<and> (valid_date s' \<and> valid_date e' \<and> \<not> date_lt e' s' \<longrightarrow>
        days_inclusive (Some s') (Some e')
          = int (card {d. valid_date d \<and> date_le s' d \<and> date_le d e'}))
   \<and> days_inclusive (Some d) (Some d) = 1"
proof -
  have "days_inclusive (Some s') (Some e')
          = int (card {d. valid_date d \<and> date_le s' d \<and> date_le d e'})"
    if "valid_date s'" "valid_date e'" "\<not> date_lt e' s'"
    using card_dates_between [OF that] that(3)
    by (simp add: days_inclusive_def date_diff_days_def)
  moreover have "days_inclusive s None = 0"
    by (cases s) (simp_all add: days_inclusive_def)
  ultimately show ?thesis
    by (simp add: days_inclusive_def date_diff_days_def date_lt_irrefl)
qed

theorem days_inclusive_spec_witness:
  "date_lt (Date 2024 9 1) (Date 2024 9 30)
   \<and> days_inclusive (Some (Date 2024 9 30)) (Some (Date 2024 9 1)) = 0
   \<and> days_inclusive (Some (Date 2024 9 1)) (Some (Date 2024 9 30)) = 30
   \<and> valid_date (Date 2024 9 1) \<and> valid_date (Date 2024 9 30)
   \<and> card {d. valid_date d \<and> date_le (Date 2024 9 1) d \<and> date_le d (Date 2024 9 30)} = 30"
proof -
  have lt: "date_lt (Date 2024 9 1) (Date 2024 9 30)" "\<not> date_lt (Date 2024 9 30) (Date 2024 9 1)"
    by (simp_all add: date_lt_def)
  have v: "valid_date (Date 2024 9 1)" "valid_date (Date 2024 9 30)"
    by (simp_all add: valid_date_def days_in_month_def)
  have diff: "date_diff_days (Date 2024 9 30) (Date 2024 9 1) = 29"
    by (simp add: date_diff_days_def toordinal_def days_before_month_def)
  note spec1 = days_inclusive_spec [of "Some (Date 2024 9 1)" "Some (Date 2024 9 30)"
      "Date 2024 9 1" "Date 2024 9 30" "Date 2024 9 1"]
  note spec2 = days_inclusive_spec [of "Some (Date 2024 9 1)" "Some (Date 2024 9 30)"
      "Date 2024 9 30" "Date 2024 9 1" "Date 2024 9 1"]
  from spec1 lt have "days_inclusive (Some (Date 2024 9 30)) (Some (Date 2024 9 1)) = 0" by blast
  moreover from spec2 lt diff
  have thirty: "days_inclusive (Some (Date 2024 9 1)) (Some (Date 2024 9 30)) = 30" by simp
  moreover from spec2 lt v thirty
  have "int (card {d. valid_date d \<and> date_le (Date 2024 9 1) d \<and> date_le d (Date 2024 9 30)}) = 30"
    by simp
  ultimately show ?thesis using lt v by simp
qed

subsection \<open>C6: adding calendar months\<close>

text \<open>
  C6. \<^verbatim>\<open>add_months(d, months)\<close> takes the target year and month from the quotient and
  the remainder of (month - 1 + months) by 12 and clamps the day to the length of the
  target month, leap years respected: the result is a valid date of that month, so the
  day never runs over into the next month. The call returns when the target year lies
  in 1..9999 and raises otherwise. Adding 12 months to a date whose day exists in the
  same month of the next year gives that day of the next year. 31 January 2024 plus
  one month is 29 February 2024, and 31 January 2023 plus one month is 28 February 2023.
\<close>

theorem add_months_spec:
  "(valid_date d \<longrightarrow>
      (let y = year d + (month d - 1 + n) div 12;
           m = (month d - 1 + n) mod 12 + 1;
           dd = min (day d) (days_in_month y m)
       in 1 \<le> m \<and> m \<le> 12 \<and> 1 \<le> dd \<and> dd \<le> days_in_month y m \<and>
          (if 1 \<le> y \<and> y \<le> 9999
           then add_months d n = Inr (Date y m dd) \<and> valid_date (Date y m dd)
           else add_months d n = Inl ValueError \<or> add_months d n = Inl OverflowError)))
   \<and> (valid_date d \<and> valid_date (Date (year d + 1) (month d) (day d)) \<longrightarrow>
        add_months d 12 = Inr (Date (year d + 1) (month d) (day d)))
   \<and> add_months (Date 2024 1 31) 1 = Inr (Date 2024 2 29)
   \<and> add_months (Date 2023 1 31) 1 = Inr (Date 2023 2 28)"
proof (intro conjI impI)
  assume d: "valid_date d"
  define y where "y = year d + (month d - 1 + n) div 12"
  define m where "m = (month d - 1 + n) mod 12 + 1"
  define dd where "dd = min (day d) (days_in_month y m)"
  have m: "1 \<le> m" "m \<le> 12" unfolding m_def by (rule target_month_range)+
  have "1 \<le> day d" using d by (simp add: valid_date_def)
  moreover have "28 \<le> days_in_month y m" using days_in_month_bounds [OF m] by simp
  ultimately have dd: "1 \<le> dd" "dd \<le> days_in_month y m" by (simp_all add: dd_def)
  have eq: "add_months d n = mk_date y m dd"
    by (simp only: add_months_eq y_def m_def dd_def)
  have "add_months d n = Inr (Date y m dd) \<and> valid_date (Date y m dd)" if "1 \<le> y \<and> y \<le> 9999"
  proof -
    have "valid_date (Date y m dd)" using that m dd by (simp add: valid_date_def)
    then show ?thesis using mk_date_valid eq by simp
  qed
  moreover have "add_months d n = Inl ValueError \<or> add_months d n = Inl OverflowError"
    if "\<not> (1 \<le> y \<and> y \<le> 9999)"
    using that mk_date_year_out [of y m dd] eq by auto
  ultimately show "let y = year d + (month d - 1 + n) div 12;
           m = (month d - 1 + n) mod 12 + 1;
           dd = min (day d) (days_in_month y m)
       in 1 \<le> m \<and> m \<le> 12 \<and> 1 \<le> dd \<and> dd \<le> days_in_month y m \<and>
          (if 1 \<le> y \<and> y \<le> 9999
           then add_months d n = Inr (Date y m dd) \<and> valid_date (Date y m dd)
           else add_months d n = Inl ValueError \<or> add_months d n = Inl OverflowError)"
    using m dd unfolding Let_def y_def [symmetric] m_def [symmetric] dd_def [symmetric]
    by simp
next
  assume a: "valid_date d \<and> valid_date (Date (year d + 1) (month d) (day d))"
  then have mo: "1 \<le> month d" "month d \<le> 12" by (simp_all add: valid_date_def)
  then have "(month d - 1 + 12) div 12 = 1" "(month d - 1 + 12) mod 12 = month d - 1"
    by (rule twelve_months_later)+
  moreover have "day d \<le> days_in_month (year d + 1) (month d)"
    using a by (simp add: valid_date_def)
  ultimately show "add_months d 12 = Inr (Date (year d + 1) (month d) (day d))"
    using a mk_date_valid by (simp add: add_months_eq)
next
  show "add_months (Date 2024 1 31) 1 = Inr (Date 2024 2 29)"
    by (simp add: add_months_def mk_date_def c_int_def days_in_month_def is_leap_def)
next
  show "add_months (Date 2023 1 31) 1 = Inr (Date 2023 2 28)"
    by (simp add: add_months_def mk_date_def c_int_def days_in_month_def is_leap_def)
qed

theorem add_months_spec_witness:
  "valid_date (Date 2024 2 29) \<and> valid_date (Date 2023 6 15) \<and> valid_date (Date 2024 6 15)
   \<and> add_months (Date 2024 2 29) 12 = Inr (Date 2025 2 28)
   \<and> add_months (Date 2023 6 15) 12 = Inr (Date 2024 6 15)"
proof -
  have v: "valid_date (Date 2024 2 29)" "valid_date (Date 2023 6 15)" "valid_date (Date 2024 6 15)"
    by (simp_all add: valid_date_def days_in_month_def is_leap_def)
  have "add_months (Date 2024 2 29) 12 = Inr (Date 2025 2 28)"
    using add_months_spec [of "Date 2024 2 29" 12] v(1)
    by (simp add: days_in_month_def is_leap_def)
  moreover have "add_months (Date 2023 6 15) 12 = Inr (Date 2024 6 15)"
    using add_months_spec [of "Date 2023 6 15" 12] v(2,3) by simp
  ultimately show ?thesis using v by simp
qed

subsection \<open>C7: accrual of a revenue stream\<close>

text \<open>
  C7. For a revenue stream, \<^verbatim>\<open>riv_component\<close> contributes 0 when the stream start is
  undefined, when \<^verbatim>\<open>projection_months\<close> is not positive, or when the stream starts after
  the projection end. Otherwise, on dates the constructor accepts, it contributes the
  annual revenue divided by 365.25, times the inclusive day count from the later of the
  stream start and the projection start to the projection end; in that case a stream
  that starts at or before the projection start contributes the daily revenue times the
  inclusive day count of the whole window. The three streams of a result of
  \<^verbatim>\<open>calculate\<close> are computed this way, from the months and the window of that call and
  the implied annual revenues (count times amount for bootcamps and sessions, clients
  times monthly amount times 12 for subscriptions), and the RIV company total is their
  sum.
\<close>

theorem riv_component_spec:
  "riv_component pm ps pe l None a = (l, 0)
   \<and> (pm \<le> 0 \<longrightarrow> riv_component pm ps pe l sd a = (l, 0))
   \<and> (date_lt pe s \<longrightarrow> riv_component pm ps pe l (Some s) a = (l, 0))
   \<and> (valid_date s \<and> valid_date ps \<and> valid_date pe \<and> 0 < pm \<and> \<not> date_lt pe s \<longrightarrow>
        riv_component pm ps pe l (Some s) a
          = (l, a / 365.25 * of_int (days_inclusive (Some (date_max s ps)) (Some pe))))
   \<and> (valid_date s \<and> valid_date ps \<and> valid_date pe \<and> 0 < pm \<and> \<not> date_lt pe s \<and> date_le s ps \<longrightarrow>
        riv_component pm ps pe l (Some s) a
          = (l, a / 365.25 * of_int (days_inclusive (Some ps) (Some pe))))
   \<and> (calculate B params = Inr r \<longrightarrow>
        riv_components r =
          [riv_component (projection_months (calculate_inputs B params))
             (projection_start (calculate_inputs B params)) (window_end r)
             (Bootcamps (bootcamp_per_year (calculate_inputs B params))
                (bootcamp_start (calculate_inputs B params)))
             (Some (bootcamp_start (calculate_inputs B params)))
             (bootcamp_per_year (calculate_inputs B params) * bootcamp_amount (calculate_inputs B params)),
           riv_component (projection_months (calculate_inputs B params))
             (projection_start (calculate_inputs B params)) (window_end r)
             (Sessions (coaching_per_year (calculate_inputs B params))
                (coaching_start (calculate_inputs B params)))
             (Some (coaching_start (calculate_inputs B params)))
             (coaching_per_year (calculate_inputs B params) * coaching_amount (calculate_inputs B params)),
           riv_component (projection_months (calculate_inputs B params))
             (projection_start (calculate_inputs B params)) (window_end r)
             (LlmSubscriptions (llm_clients (calculate_inputs B params))
                (llm_monthly (calculate_inputs B params)) (llm_start (calculate_inputs B params)))
             (Some (llm_start (calculate_inputs B params)))
             (llm_clients (calculate_inputs B params) * llm_monthly (calculate_inputs B params) * 12)]
        \<and> riv_company_total r = sum_values (riv_components r)
        \<and> add_months (projection_start (calculate_inputs B params))
              (projection_months (calculate_inputs B params)) = Inr (window_end r))"
proof -
  have none: "riv_component pm ps pe l None a = (l, 0)"
    by (simp add: riv_component_def)
  have months: "riv_component pm ps pe l sd a = (l, 0)" if "pm \<le> 0"
    using that by (cases sd) (simp_all add: riv_component_def)
  have late: "riv_component pm ps pe l (Some s) a = (l, 0)" if "date_lt pe s"
    using that by (simp add: riv_component_def)
  have active: "riv_component pm ps pe l (Some s) a
          = (l, a / 365.25 * of_int (days_inclusive (Some (date_max s ps)) (Some pe)))"
    if v: "valid_date s" "valid_date ps" "valid_date pe" and pm: "0 < pm" and s: "\<not> date_lt pe s"
  proof -
    have "0 \<le> days_inclusive (Some (date_max s ps)) (Some pe)"
      using v by (intro days_inclusive_nonneg date_max_valid)
    then consider "days_inclusive (Some (date_max s ps)) (Some pe) = 0"
      | "0 < days_inclusive (Some (date_max s ps)) (Some pe)" by linarith
    then show ?thesis
      using pm s by cases (simp_all add: riv_component_def Let_def)
  qed
  have full: "riv_component pm ps pe l (Some s) a
          = (l, a / 365.25 * of_int (days_inclusive (Some ps) (Some pe)))"
    if "valid_date s" "valid_date ps" "valid_date pe" "0 < pm" "\<not> date_lt pe s" "date_le s ps"
    using active [OF that(1-5)] date_max_le [OF that(6)] by simp
  have streams: "riv_components r =
          [riv_component (projection_months (calculate_inputs B params))
             (projection_start (calculate_inputs B params)) (window_end r)
             (Bootcamps (bootcamp_per_year (calculate_inputs B params))
                (bootcamp_start (calculate_inputs B params)))
             (Some (bootcamp_start (calculate_inputs B params)))
             (bootcamp_per_year (calculate_inputs B params) * bootcamp_amount (calculate_inputs B params)),
           riv_component (projection_months (calculate_inputs B params))
             (projection_start (calculate_inputs B params)) (window_end r)
             (Sessions (coaching_per_year (calculate_inputs B params))
                (coaching_start (calculate_inputs B params)))
             (Some (coaching_start (calculate_inputs B params)))
             (coaching_per_year (calculate_inputs B params) * coaching_amount (calculate_inputs B params)),
           riv_component (projection_months (calculate_inputs B params))
             (projection_start (calculate_inputs B params)) (window_end r)
             (LlmSubscriptions (llm_clients (calculate_inputs B params))
                (llm_monthly (calculate_inputs B params)) (llm_start (calculate_inputs B params)))
             (Some (llm_start (calculate_inputs B params)))
             (llm_clients (calculate_inputs B params) * llm_monthly (calculate_inputs B params) * 12)]
        \<and> riv_company_total r = sum_values (riv_components r)
        \<and> add_months (projection_start (calculate_inputs B params))
              (projection_months (calculate_inputs B params)) = Inr (window_end r)"
    if "calculate B params = Inr r"
  proof -
    from that have s: "calculate_body (calculate_inputs B params) = Inr r" by (simp add: calculate_def)
    show ?thesis
      using calculate_body_riv(1) [OF s] calculate_body_riv(2) [OF s] calculate_body_window(1) [OF s] by simp
  qed
  from none months late active full streams show ?thesis by blast
qed

theorem riv_component_spec_witness:
  "valid_date (Date 2026 2 1) \<and> valid_date (Date 2026 1 1) \<and> valid_date (Date 2028 1 1)
   \<and> \<not> date_lt (Date 2028 1 1) (Date 2026 2 1)
   \<and> date_le (Date 2026 1 1) (Date 2026 1 1)
   \<and> riv_component 24 (Date 2026 1 1) (Date 2028 1 1) ''bootcamp'' (Some (Date 2026 2 1)) 28000
         = (''bootcamp'', 28000 / 365.25 * 700)
   \<and> riv_component 24 (Date 2026 1 1) (Date 2028 1 1) ''coaching'' (Some (Date 2026 1 1)) 10800
         = (''coaching'', 10800 / 365.25 * 731)
   \<and> riv_component 24 (Date 2026 1 1) (Date 2028 1 1) ''llm'' (Some (Date 2028 1 2)) 3600
         = (''llm'', 0)"
proof -
  have v: "valid_date (Date 2026 2 1)" "valid_date (Date 2026 1 1)" "valid_date (Date 2028 1 1)"
    by (simp_all add: valid_date_def days_in_month_def)
  have o: "\<not> date_lt (Date 2028 1 1) (Date 2026 2 1)" "\<not> date_lt (Date 2028 1 1) (Date 2026 1 1)"
    "date_le (Date 2026 1 1) (Date 2026 1 1)" "date_lt (Date 2028 1 1) (Date 2028 1 2)"
    by (simp_all add: date_lt_def date_le_def)
  have m: "date_max (Date 2026 2 1) (Date 2026 1 1) = Date 2026 2 1"
    "date_max (Date 2026 1 1) (Date 2026 1 1) = Date 2026 1 1"
    by (simp_all add: date_max_def date_lt_def)
  have d1: "days_inclusive (Some (Date 2026 2 1)) (Some (Date 2028 1 1)) = 700"
    by (simp add: days_inclusive_def date_lt_def date_diff_days_def toordinal_def
        days_before_year_def days_before_month_def is_leap_def)
  have d2: "days_inclusive (Some (Date 2026 1 1)) (Some (Date 2028 1 1)) = 731"
    by (simp add: days_inclusive_def date_lt_def date_diff_days_def toordinal_def
        days_before_year_def days_before_month_def is_leap_def)
  have "riv_component 24 (Date 2026 1 1) (Date 2028 1 1) ''bootcamp'' (Some (Date 2026 2 1)) 28000
         = (''bootcamp'', 28000 / 365.25 * 700)"
    using riv_component_spec [of 24 "Date 2026 1 1" "Date 2028 1 1" "''bootcamp''" 28000
        "Some (Date 2026 2 1)" "Date 2026 2 1"] v o m d1
    by simp
  moreover
  have "riv_component 24 (Date 2026 1 1) (Date 2028 1 1) ''coaching'' (Some (Date 2026 1 1)) 10800
         = (''coaching'', 10800 / 365.25 * 731)"
    using riv_component_spec [of 24 "Date 2026 1 1" "Date 2028 1 1" "''coaching''" 10800
        "Some (Date 2026 1 1)" "Date 2026 1 1"] v o m d2
    by simp
  moreover
  have "riv_component 24 (Date 2026 1 1) (Date 2028 1 1) ''llm'' (Some (Date 2028 1 2)) 3600
         = (''llm'', 0)"
    using riv_component_spec [of 24 "Date 2026 1 1" "Date 2028 1 1" "''llm''" 3600
        "Some (Date 2028 1 2)" "Date 2028 1 2"] o
    by simp
  ultimately show ?thesis using v o by simp
qed

subsection \<open>C8: linearity of the share split\<close>

text \<open>
  C8. For every parameter mapping on which \<^verbatim>\<open>calculate\<close> returns, and every share
  percentage read from it, each stakeholder total is the company total times the share
  percentage over 100: for the past totals, the projection totals and the RIV totals.
  The result echoes that percentage.
\<close>

theorem share_split_linear:
  assumes "calculate B params = Inr r"
  shows "share_pct (echo r) = parse_float B (dict_get params ''share_pct'' ''40'') 0
    \<and> past_friend_total r
          = past_company_total r * (parse_float B (dict_get params ''share_pct'' ''40'') 0 / 100)
    \<and> proj_friend_total r
          = proj_company_total r * (parse_float B (dict_get params ''share_pct'' ''40'') 0 / 100)
    \<and> riv_friend_total r
          = riv_company_total r * (parse_float B (dict_get params ''share_pct'' ''40'') 0 / 100)"
proof -
  from assms have s: "calculate_body (calculate_inputs B params) = Inr r" by (simp add: calculate_def)
  show ?thesis
    using calculate_body_past(3) [OF s] calculate_body_proj(3) [OF s] calculate_body_riv(3) [OF s] calculate_body_summary(3) [OF s]
    by (simp add: calculate_inputs_numbers)
qed

lemma default_window_share:
  "projection_start (calculate_inputs (run_on t) [''share_pct'' \<mapsto> ''25'']) = Date 2026 1 1"
  "projection_months (calculate_inputs (run_on t) [''share_pct'' \<mapsto> ''25'']) = 24"
  "parse_float (run_on t) (dict_get [''share_pct'' \<mapsto> ''25''] ''share_pct'' ''40'') 0 = 25"
  by (simp_all add: calculate_inputs_dates calculate_inputs_numbers run_defs)

theorem share_split_linear_witness:
  "\<exists>r. calculate (run_on (Date 2026 11 3)) [''share_pct'' \<mapsto> ''25''] = Inr r
       \<and> share_pct (echo r) = 25
       \<and> past_friend_total r = past_company_total r * (25 / 100)
       \<and> proj_friend_total r = proj_company_total r * (25 / 100)
       \<and> riv_friend_total r = riv_company_total r * (25 / 100)"
proof -
  obtain r where r: "calculate (run_on (Date 2026 11 3)) [''share_pct'' \<mapsto> ''25''] = Inr r"
    using calculate_returns [of "run_on (Date 2026 11 3)" "[''share_pct'' \<mapsto> ''25'']"]
    by (auto simp: default_window_share)
  from share_split_linear [OF r] r show ?thesis
    by (simp add: default_window_share)
qed

subsection \<open>C9: the past breakdown is framed off the projection inputs\<close>




subsection \<open>C10: negative projection months\<close>






end
